theory Spec2Isabelle
  imports Complex_Main "HOL-Library.Sublist"
begin

section \<open>Python values used by the resilient execution layer\<close>

text \<open>
  Wall-clock readings (\<^verbatim>\<open>time.time()\<close>) are modelled as real numbers and passed to
  every operation that reads the clock. Python integers are \<^typ>\<open>int\<close>. An exception the
  interpreter would raise is a value of \<open>py_error\<close>.
\<close>

datatype py_error = TypeError | ValueError

text \<open>
  A character of a string stands for a code point below 256; text with other code
  points is outside the model. \<^verbatim>\<open>str.lower()\<close> on these: the capital letters, which are
  the codes 65-90, 192-214 and 216-222, move up by 32 to their small letters, every
  other character is kept.
\<close>

definition lower_char :: "char \<Rightarrow> char" where
  "lower_char c =
     (let n = (of_char c :: nat)
      in if (65 \<le> n \<and> n \<le> 90) \<or> (192 \<le> n \<and> n \<le> 214) \<or> (216 \<le> n \<and> n \<le> 222)
         then char_of (n + 32) else c)"

definition lower :: "string \<Rightarrow> string" where
  "lower s = map lower_char s"

text \<open>\<^verbatim>\<open>needle in haystack\<close> on strings: the needle occurs as a contiguous run.\<close>

definition str_in :: "string \<Rightarrow> string \<Rightarrow> bool" where
  "str_in needle haystack = sublist needle haystack"

section \<open>CircuitBreaker (utils/rate\_limiter.py)\<close>

record CircuitBreaker =
  failure_threshold :: int
  timeout_seconds :: int
  window_seconds :: int
  failures :: "real list"
  is_open :: bool
  opened_at :: "real option"

text \<open>\<^verbatim>\<open>CircuitBreaker.__init__\<close>; the defaults are 5, 30 and 60.\<close>

definition new_breaker :: "int \<Rightarrow> int \<Rightarrow> int \<Rightarrow> CircuitBreaker" where
  "new_breaker threshold timeout window =
     \<lparr>failure_threshold = threshold, timeout_seconds = timeout, window_seconds = window,
      failures = [], is_open = False, opened_at = None\<rparr>"

definition default_breaker :: CircuitBreaker where
  "default_breaker = new_breaker 5 30 60"

text \<open>
  \<^verbatim>\<open>record_failure\<close>, the body under the lock: append the reading, keep the entries
  younger than the window, open when the count reaches the threshold and the breaker
  is not open already.
\<close>

definition record_failure :: "real \<Rightarrow> CircuitBreaker \<Rightarrow> CircuitBreaker" where
  "record_failure current_time cb =
     (let kept = filter (\<lambda>f. current_time - f < real_of_int (window_seconds cb))
                   (failures cb @ [current_time]);
          cb1 = cb\<lparr>failures := kept\<rparr>
      in if failure_threshold cb \<le> int (length kept) \<and> \<not> is_open cb
         then cb1\<lparr>is_open := True, opened_at := Some current_time\<rparr>
         else cb1)"

text \<open>\<^verbatim>\<open>record_success\<close>, the body under the lock.\<close>

definition record_success :: "CircuitBreaker \<Rightarrow> CircuitBreaker" where
  "record_success cb =
     (let cb1 = (if failures cb \<noteq> [] then cb\<lparr>failures := []\<rparr> else cb)
      in if is_open cb1 then cb1\<lparr>is_open := False, opened_at := None\<rparr> else cb1)"

text \<open>
  \<^verbatim>\<open>check_and_wait\<close>. The result is the breaker after the locked section and the
  time the caller then sleeps (\<open>None\<close>: it returns without sleeping). In either case the
  call returns and the caller goes on to the semaphore. Subtracting \<^verbatim>\<open>opened_at = None\<close>
  raises \<^verbatim>\<open>TypeError\<close>.
\<close>

definition check_and_wait ::
  "real \<Rightarrow> CircuitBreaker \<Rightarrow> py_error + (CircuitBreaker \<times> real option)" where
  "check_and_wait current_time cb =
     (if is_open cb then
        (case opened_at cb of
           None \<Rightarrow> Inl TypeError
         | Some t \<Rightarrow>
             (let elapsed = current_time - t in
              if real_of_int (timeout_seconds cb) \<le> elapsed
              then Inr (cb\<lparr>is_open := False, opened_at := None\<rparr>, None)
              else Inr (cb, Some (real_of_int (timeout_seconds cb) - elapsed))))
      else Inr (cb, None))"

text \<open>A run of failures with no success in between, recorded at the given readings.\<close>

fun record_failures :: "CircuitBreaker \<Rightarrow> real list \<Rightarrow> CircuitBreaker" where
  "record_failures cb [] = cb"
| "record_failures cb (t # ts) = record_failures (record_failure t cb) ts"

section \<open>RateLimiter (utils/rate\_limiter.py)\<close>

text \<open>
  What an awaited callable does: it returns a value, raises an \<^verbatim>\<open>Exception\<close> (kept as
  the text \<^verbatim>\<open>str(e)\<close>), or raises a \<^verbatim>\<open>BaseException\<close> that is not an \<^verbatim>\<open>Exception\<close>,
  such as \<^verbatim>\<open>asyncio.CancelledError\<close> when the caller is cancelled.
\<close>

datatype 'a outcome = Returned 'a | RaisedException string | RaisedBaseException

text \<open>
  The semaphore is its counter: \<^verbatim>\<open>acquire\<close> waits while it is 0 and then decrements
  it, \<^verbatim>\<open>release\<close> increments it.
\<close>

record RateLimiter =
  semaphore :: nat
  circuit_breaker :: CircuitBreaker


text \<open>
  The \<^verbatim>\<open>try\<close> block of \<^verbatim>\<open>execute\<close>, run while the permit is held: what it does to the
  breaker. The outcome of the callable is passed on unchanged (\<^verbatim>\<open>return result\<close>, or
  \<^verbatim>\<open>raise\<close>); \<^verbatim>\<open>except Exception\<close> does not see a \<^verbatim>\<open>BaseException\<close>.
\<close>

definition execute_body :: "real \<Rightarrow> 'a outcome \<Rightarrow> CircuitBreaker \<Rightarrow> CircuitBreaker" where
  "execute_body current_time result cb =
     (case result of
        Returned v \<Rightarrow> record_success cb
      | RaisedException e \<Rightarrow>
          (let error_msg = lower e in
           if str_in ''500'' error_msg \<or> str_in ''502'' error_msg \<or> str_in ''503'' error_msg
           then record_failure current_time cb
           else cb)
      | RaisedBaseException \<Rightarrow> cb)"

text \<open>
  \<^verbatim>\<open>execute\<close> for one caller with nobody else at the gate: the breaker is consulted
  at \<open>t_check\<close>, the callable ends at \<open>t_done\<close>. With the counter at 0 the caller
  would wait for ever: \<open>None\<close>.
\<close>

definition execute ::
  "real \<Rightarrow> real \<Rightarrow> 'a outcome \<Rightarrow> RateLimiter \<Rightarrow> (RateLimiter \<times> (py_error + 'a outcome)) option" where
  "execute t_check t_done result rl =
     (case check_and_wait t_check (circuit_breaker rl) of
        Inl err \<Rightarrow> Some (rl, Inl err)
      | Inr (cb, slept) \<Rightarrow>
          if semaphore rl = 0 then None
          else Some (rl\<lparr>circuit_breaker := execute_body t_done result cb\<rparr>, Inr result))"







text \<open>
  The class of failures the specification, and the docstrings of the breaker, count:
  the HTTP status of the failure is one of the 5xx class. The source keeps no status
  code, it looks at the text of the exception only.
\<close>

definition spec_is_server_error :: "int \<Rightarrow> bool" where
  "spec_is_server_error status = (500 \<le> status \<and> status \<le> 599)"

section \<open>LLM helpers (utils/llm.py)\<close>

text \<open>
  \<^verbatim>\<open>estimate_token_count\<close>: \<^verbatim>\<open>int(len(text) * 0.75)\<close>. Three quarters of a length is
  computed exactly by the float product, and \<^verbatim>\<open>int\<close> drops the fraction.
\<close>

definition estimate_token_count :: "string \<Rightarrow> int" where
  "estimate_token_count txt = (3 * int (length txt)) div 4"

text \<open>
  \<^verbatim>\<open>truncate_evidence_for_token_limit\<close>. \<open>human_prompt\<close> is the text
  \<^verbatim>\<open>human_prompt_template.format(claim_text=claim_text, evidence_snippets="")\<close>, and
  \<open>format_func\<close> the formatter in use (the caller's, or the default one).
\<close>

definition available_tokens :: "string \<Rightarrow> string \<Rightarrow> int \<Rightarrow> int" where
  "available_tokens system_prompt human_prompt max_tokens =
     (let base_tokens = estimate_token_count (system_prompt @ human_prompt)
      in max_tokens - base_tokens - 4000)"

text \<open>The loop over \<^verbatim>\<open>reversed(evidence_items)\<close>, with its \<^verbatim>\<open>break\<close>.\<close>

fun select_walk :: "('a list \<Rightarrow> string) \<Rightarrow> int \<Rightarrow> 'a list \<Rightarrow> 'a list \<Rightarrow> 'a list" where
  "select_walk format_func available selected [] = selected"
| "select_walk format_func available selected (evidence # rest) =
     (let test_tokens = estimate_token_count (format_func (selected @ [evidence]))
      in if test_tokens \<le> available
         then select_walk format_func available (selected @ [evidence]) rest
         else selected)"

definition greedy_selected :: "('a list \<Rightarrow> string) \<Rightarrow> int \<Rightarrow> 'a list \<Rightarrow> 'a list" where
  "greedy_selected format_func available evidence_items =
     select_walk format_func available [] (rev evidence_items)"

definition truncate_evidence_for_token_limit ::
  "'a list \<Rightarrow> string \<Rightarrow> string \<Rightarrow> int \<Rightarrow> ('a list \<Rightarrow> string) \<Rightarrow> 'a list" where
  "truncate_evidence_for_token_limit evidence_items system_prompt human_prompt max_tokens
       format_func =
     (if evidence_items = [] then evidence_items
      else
        let available = available_tokens system_prompt human_prompt max_tokens in
        if available \<le> 0
        then take (min 3 (length evidence_items)) evidence_items
        else
          let selected = greedy_selected format_func available evidence_items;
              result = filter (\<lambda>e. e \<in> set selected) evidence_items
          in if length result = 0 \<and> length evidence_items > 0
             then take (min 3 (length evidence_items)) evidence_items
             else if length result < 3 \<and> length evidence_items \<ge> 3
             then take 3 evidence_items
             else result)"

text \<open>
  \<^verbatim>\<open>call_llm_with_structured_output\<close>. \<open>llm k\<close> is what attempt number \<open>k\<close> of
  \<^verbatim>\<open>ainvoke\<close> does. The result comes with the waits slept between attempts.
\<close>

definition is_rate_limit :: "string \<Rightarrow> bool" where
  "is_rate_limit error_msg =
     (str_in ''rate_limit'' (lower error_msg) \<or> str_in ''429'' error_msg
      \<or> str_in ''quota'' (lower error_msg))"

function retry_loop ::
  "(nat \<Rightarrow> 'm option outcome) \<Rightarrow> int \<Rightarrow> nat \<Rightarrow> 'm option outcome \<times> int list" where
  "retry_loop llm max_retries attempt =
     (if int attempt < max_retries then
        (case llm attempt of
           Returned result \<Rightarrow> (Returned result, [])
         | RaisedBaseException \<Rightarrow> (RaisedBaseException, [])
         | RaisedException error_msg \<Rightarrow>
             if int attempt < max_retries - 1 then
               (let wait_time = 2 ^ attempt;
                    wait_time = (if is_rate_limit error_msg then wait_time * 3 else wait_time);
                    later = retry_loop llm max_retries (Suc attempt)
                in (fst later, wait_time # snd later))
             else retry_loop llm max_retries (Suc attempt))
      else (Returned None, []))"
  by pat_completeness auto
termination
  by (relation "measure (\<lambda>(llm, max_retries, attempt). nat (max_retries - int attempt))") auto

definition call_llm_with_structured_output ::
  "(nat \<Rightarrow> 'm option outcome) \<Rightarrow> int \<Rightarrow> 'm option outcome \<times> int list" where
  "call_llm_with_structured_output llm max_retries = retry_loop llm max_retries 0"

text \<open>
  \<^verbatim>\<open>process_with_voting\<close>. \<open>processor pos item k\<close> is the pair returned by attempt \<open>k\<close>
  on the item at position \<open>pos\<close> (the answers of the model differ from call to call);
  \<^verbatim>\<open>asyncio.gather\<close> returns them in launch order. \<open>truthy\<close> is Python's truth value of
  what \<open>result_factory\<close> builds. The processor and the factory are taken to return:
  the function has no handler, an exception of theirs would leave it as it is.
\<close>

definition gather_attempts ::
  "(nat \<Rightarrow> 'i \<Rightarrow> nat \<Rightarrow> bool \<times> 'r option) \<Rightarrow> nat \<Rightarrow> 'i \<Rightarrow> int \<Rightarrow> (bool \<times> 'r option) list" where
  "gather_attempts processor pos item completions =
     map (processor pos item) [0..<nat completions]"

definition success_count :: "(bool \<times> 'r option) list \<Rightarrow> int" where
  "success_count attempts = int (length (filter fst attempts))"

text \<open>The inner loop over the attempts, with its \<^verbatim>\<open>break\<close>.\<close>

fun first_successful ::
  "('r \<Rightarrow> 'i \<Rightarrow> 'o) \<Rightarrow> ('o \<Rightarrow> bool) \<Rightarrow> 'i \<Rightarrow> (bool \<times> 'r option) list \<Rightarrow> 'o option" where
  "first_successful result_factory truthy item [] = None"
| "first_successful result_factory truthy item ((success, None) # rest) =
     first_successful result_factory truthy item rest"
| "first_successful result_factory truthy item ((success, Some result) # rest) =
     (if success then
        (let processed_result = result_factory result item
         in if truthy processed_result then Some processed_result
            else first_successful result_factory truthy item rest)
      else first_successful result_factory truthy item rest)"

text \<open>The body of the outer loop for one item: what, if anything, is appended.\<close>

definition vote_item ::
  "(nat \<Rightarrow> 'i \<Rightarrow> nat \<Rightarrow> bool \<times> 'r option) \<Rightarrow> ('r \<Rightarrow> 'i \<Rightarrow> 'o) \<Rightarrow> ('o \<Rightarrow> bool) \<Rightarrow> int \<Rightarrow> int
     \<Rightarrow> nat \<Rightarrow> 'i \<Rightarrow> 'o option" where
  "vote_item processor result_factory truthy completions min_successes pos item =
     (let attempts = gather_attempts processor pos item completions
      in if success_count attempts < min_successes then None
         else first_successful result_factory truthy item attempts)"

fun voting_loop ::
  "(nat \<Rightarrow> 'i \<Rightarrow> nat \<Rightarrow> bool \<times> 'r option) \<Rightarrow> ('r \<Rightarrow> 'i \<Rightarrow> 'o) \<Rightarrow> ('o \<Rightarrow> bool) \<Rightarrow> int \<Rightarrow> int
     \<Rightarrow> nat \<Rightarrow> 'i list \<Rightarrow> 'o list \<Rightarrow> 'o list" where
  "voting_loop processor result_factory truthy completions min_successes pos [] results =
     results"
| "voting_loop processor result_factory truthy completions min_successes pos (item # items)
       results =
     (case vote_item processor result_factory truthy completions min_successes pos item of
        None \<Rightarrow>
          voting_loop processor result_factory truthy completions min_successes (Suc pos)
            items results
      | Some processed_result \<Rightarrow>
          voting_loop processor result_factory truthy completions min_successes (Suc pos)
            items (results @ [processed_result]))"

definition process_with_voting ::
  "'i list \<Rightarrow> (nat \<Rightarrow> 'i \<Rightarrow> nat \<Rightarrow> bool \<times> 'r option) \<Rightarrow> int \<Rightarrow> int \<Rightarrow> ('r \<Rightarrow> 'i \<Rightarrow> 'o)
     \<Rightarrow> ('o \<Rightarrow> bool) \<Rightarrow> 'o list" where
  "process_with_voting items processor completions min_successes result_factory truthy =
     voting_loop processor result_factory truthy completions min_successes 0 items []"

section \<open>Search decision (claim\_verifier/nodes/search\_decision.py)\<close>

record Evidence =
  url :: string
  snippet :: string
  title :: "string option"
  is_influential :: bool

record IntermediateAssessment =
  needs_more :: bool
  missing :: "string list"

record SearchDecisionOutput =
  needs_more_evidence :: bool
  missing_aspects :: "string list"

record ClaimVerifierState =
  evidence :: "Evidence list"
  iteration_count :: int
  intermediate_assessment :: "IntermediateAssessment option"

datatype node = generate_search_query | evaluate_evidence

text \<open>
  \<^verbatim>\<open>Command(goto=..., update={...})\<close>: a key absent from \<^verbatim>\<open>update\<close> is \<open>None\<close> here and
  leaves the field of the state as it is.
\<close>

record Command =
  goto :: node
  update_iteration_count :: "int option"
  update_intermediate_assessment :: "IntermediateAssessment option"

definition AUTHORITATIVE_DOMAINS :: "string list" where
  "AUTHORITATIVE_DOMAINS =
     [''gov'', ''edu'', ''.org'', ''who.int'', ''imf.org'', ''worldbank.org'', ''un.org'',
      ''nasa.gov'', ''cdc.gov'', ''nih.gov'', ''nature.com'', ''science.org'', ''nejm.org'',
      ''wikipedia.org'', ''britannica.com'']"

text \<open>\<^verbatim>\<open>any(domain in ev.url.lower() for domain in AUTHORITATIVE_DOMAINS)\<close>\<close>

definition is_authoritative :: "Evidence \<Rightarrow> bool" where
  "is_authoritative ev =
     (let url_lower = lower (url ev)
      in list_ex (\<lambda>domain. str_in domain url_lower) AUTHORITATIVE_DOMAINS)"

definition has_authoritative_source :: "Evidence list \<Rightarrow> bool" where
  "has_authoritative_source evs = list_ex is_authoritative evs"

definition authoritative_count :: "Evidence list \<Rightarrow> int" where
  "authoritative_count evs = int (length (filter is_authoritative evs))"

text \<open>
  \<^verbatim>\<open>search_decision_node\<close>. \<open>max_iterations\<close> is
  \<^verbatim>\<open>ITERATIVE_SEARCH_CONFIG["max_iterations"]\<close> and \<open>response\<close> what
  \<^verbatim>\<open>call_llm_with_structured_output\<close> returned for the sufficiency prompt (\<open>None\<close> when
  every attempt failed); it is looked at only after the three early returns.
\<close>

definition search_decision_node ::
  "int \<Rightarrow> SearchDecisionOutput option \<Rightarrow> ClaimVerifierState \<Rightarrow> Command" where
  "search_decision_node max_iterations response state =
     (let stop = \<lparr>goto = evaluate_evidence, update_iteration_count = None,
                  update_intermediate_assessment = None\<rparr>
      in
      if max_iterations \<le> iteration_count state then stop
      else if 3 \<le> length (evidence state) \<and> has_authoritative_source (evidence state) then stop
      else if 2 \<le> authoritative_count (evidence state) \<and> 2 \<le> length (evidence state) then stop
      else
        (case response of
           None \<Rightarrow> stop
         | Some r \<Rightarrow>
             (let assessment = \<lparr>needs_more = needs_more_evidence r,
                                missing = missing_aspects r\<rparr>;
                  should_continue =
                    (needs_more_evidence r \<and> iteration_count state < max_iterations)
              in if should_continue
                 then \<lparr>goto = generate_search_query,
                       update_iteration_count = Some (iteration_count state + 1),
                       update_intermediate_assessment = Some assessment\<rparr>
                 else \<lparr>goto = evaluate_evidence, update_iteration_count = None,
                       update_intermediate_assessment = Some assessment\<rparr>)))"

text \<open>The graph applying the \<^verbatim>\<open>update\<close> of a command to the state.\<close>

definition apply_update :: "Command \<Rightarrow> ClaimVerifierState \<Rightarrow> ClaimVerifierState" where
  "apply_update cmd state =
     (let s1 = (case update_iteration_count cmd of
                  None \<Rightarrow> state | Some n \<Rightarrow> state\<lparr>iteration_count := n\<rparr>)
      in (case update_intermediate_assessment cmd of
            None \<Rightarrow> s1 | Some a \<Rightarrow> s1\<lparr>intermediate_assessment := Some a\<rparr>))"

text \<open>
  Modelled from the spec: the loop around the node (the graph of the claim verifier
  is not among the sources). While the node answers \<open>generate_search_query\<close> another
  gathering round runs, which appends the evidence it found (\<open>gathered tick\<close>) and leaves
  the iteration count alone, and the node is evaluated again; \<open>evaluate_evidence\<close>
  is terminal. The result lists every evaluation: the state it saw and its command.
\<close>

function search_loop ::
  "int \<Rightarrow> (nat \<Rightarrow> SearchDecisionOutput option) \<Rightarrow> (nat \<Rightarrow> Evidence list) \<Rightarrow> nat
     \<Rightarrow> ClaimVerifierState \<Rightarrow> (ClaimVerifierState \<times> Command) list" where
  "search_loop max_iterations responses gathered tick state =
     (if goto (search_decision_node max_iterations (responses tick) state) = evaluate_evidence
      then [(state, search_decision_node max_iterations (responses tick) state)]
      else (state, search_decision_node max_iterations (responses tick) state)
           # search_loop max_iterations responses gathered (Suc tick)
               ((apply_update (search_decision_node max_iterations (responses tick) state) state)
                  \<lparr>evidence := evidence state @ gathered tick\<rparr>))"
  by pat_completeness auto
termination
proof (relation "measure (\<lambda>(max_iterations, responses, gathered, tick, state).
                   nat (max_iterations - iteration_count state))")
  show "wf (measure (\<lambda>(max_iterations, responses, gathered, tick, state).
                   nat (max_iterations - iteration_count state)))"
    by simp
next
  fix max_iterations :: int and responses :: "nat \<Rightarrow> SearchDecisionOutput option"
    and gathered :: "nat \<Rightarrow> Evidence list" and tick :: nat and state :: ClaimVerifierState
  assume "goto (search_decision_node max_iterations (responses tick) state) \<noteq> evaluate_evidence"
  then have "iteration_count state < max_iterations
      \<and> update_iteration_count (search_decision_node max_iterations (responses tick) state)
          = Some (iteration_count state + 1)"
    by (auto simp: search_decision_node_def Let_def split: if_splits option.splits)
  then show "((max_iterations, responses, gathered, Suc tick,
        (apply_update (search_decision_node max_iterations (responses tick) state) state)
          \<lparr>evidence := evidence state @ gathered tick\<rparr>),
       (max_iterations, responses, gathered, tick, state))
      \<in> measure (\<lambda>(max_iterations, responses, gathered, tick, state).
                   nat (max_iterations - iteration_count state))"
    by (auto simp: apply_update_def Let_def split: option.splits)
qed

section \<open>Callers of the helpers\<close>

text \<open>
  The contextualization node (claim\_extractor/nodes/contextualization.py) is the caller
  of \<^verbatim>\<open>process_with_voting\<close>, with 2 completions of which 2 must succeed. \<open>response\<close> is
  the \<^verbatim>\<open>contextualized_text\<close> of what \<^verbatim>\<open>call_llm_with_structured_output\<close> returned, \<open>None\<close>
  when it returned nothing. A string is true in Python when it is not empty.
  \<^verbatim>\<open>str.strip()\<close> drops the white space at both ends; below 256 the white space
  characters are the codes 9-13, 28-32, 133 and 160.
\<close>

definition is_space :: "char \<Rightarrow> bool" where
  "is_space c =
     (let n = (of_char c :: nat)
      in n = 32 \<or> (9 \<le> n \<and> n \<le> 13) \<or> (28 \<le> n \<and> n \<le> 31) \<or> n = 133 \<or> n = 160)"

definition strip :: "string \<Rightarrow> string" where
  "strip s = rev (dropWhile is_space (rev (dropWhile is_space s)))"

definition str_truthy :: "string \<Rightarrow> bool" where
  "str_truthy s = (s \<noteq> [])"

definition single_contextualization_attempt :: "string option \<Rightarrow> bool \<times> string option" where
  "single_contextualization_attempt response =
     (case response of
        None \<Rightarrow> (False, Some [])
      | Some contextualized_text \<Rightarrow>
          if \<not> str_truthy contextualized_text then (False, Some [])
          else (True, Some (strip contextualized_text)))"

definition create_contextualized_result :: "string \<Rightarrow> string \<Rightarrow> string" where
  "create_contextualized_result contextualized_text original_text = contextualized_text"

text \<open>A model that answers every attempt on every item with two blanks.\<close>

definition blank_answers :: "nat \<Rightarrow> string \<Rightarrow> nat \<Rightarrow> bool \<times> string option" where
  "blank_answers pos item k = single_contextualization_attempt (Some ''  '')"

text \<open>
  An attempt the inner loop of \<^verbatim>\<open>process_with_voting\<close> stops at: it reports success,
  carries a value, and what the factory builds from the value is true.
\<close>

definition accepted_attempt ::
  "('r \<Rightarrow> 'i \<Rightarrow> 'o) \<Rightarrow> ('o \<Rightarrow> bool) \<Rightarrow> 'i \<Rightarrow> bool \<times> 'r option \<Rightarrow> bool" where
  "accepted_attempt result_factory truthy item attempt =
     (case attempt of
        (success, None) \<Rightarrow> False
      | (success, Some result) \<Rightarrow> success \<and> truthy (result_factory result item))"

text \<open>An evidence item found at the given address.\<close>

definition evidence_from :: "string \<Rightarrow> Evidence" where
  "evidence_from address = \<lparr>url = address, snippet = [], title = None, is_influential = False\<rparr>"

section \<open>Evaluating the string tests\<close>

lemma str_in_Nil [simp]: "str_in [] h = True"
  by (simp add: str_in_def)

lemma str_in_Cons_Nil [simp]: "str_in (x # xs) [] = False"
  by (simp add: str_in_def)

lemma str_in_Cons_Cons [simp]:
  "str_in (x # xs) (y # ys) = ((x = y \<and> prefix xs ys) \<or> str_in (x # xs) ys)"
  by (simp add: str_in_def sublist_Cons_right)

lemma lower_simps [simp]:
  "lower [] = []" "lower (c # cs) = lower_char c # lower cs"
  by (simp_all add: lower_def)

section \<open>Properties of the circuit breaker\<close>

lemma record_failure_params [simp]:
  "failure_threshold (record_failure t cb) = failure_threshold cb"
  "timeout_seconds (record_failure t cb) = timeout_seconds cb"
  "window_seconds (record_failure t cb) = window_seconds cb"
  by (simp_all add: record_failure_def Let_def)




lemma record_failure_keeps_open:
  "is_open cb \<Longrightarrow> is_open (record_failure t cb) \<and> opened_at (record_failure t cb) = opened_at cb"
  by (simp add: record_failure_def Let_def)


lemma record_failures_window [simp]:
  "window_seconds (record_failures cb ts) = window_seconds cb"
  by (induction ts arbitrary: cb) simp_all

lemma record_failures_threshold [simp]:
  "failure_threshold (record_failures cb ts) = failure_threshold cb"
  by (induction ts arbitrary: cb) simp_all




lemma record_success_resets:
  "failures (record_success cb) = [] \<and> \<not> is_open (record_success cb)"
  by (simp add: record_success_def Let_def)

lemma check_and_wait_closed:
  "\<not> is_open cb \<Longrightarrow> check_and_wait now cb = Inr (cb, None)"
  by (simp add: check_and_wait_def)

lemma record_success_params [simp]:
  "failure_threshold (record_success cb) = failure_threshold cb"
  "timeout_seconds (record_success cb) = timeout_seconds cb"
  "window_seconds (record_success cb) = window_seconds cb"
  by (simp_all add: record_success_def Let_def)





text \<open>
  C1, as the code has it. The breaker has two states only. A caller that checks an open
  breaker before the timeout has elapsed leaves it open and sleeps for the rest of
  the timeout. The first check after the timeout closes the breaker outright and lets
  its caller through without a wait, and so does every later check of the breaker so
  closed: no caller is held back. A success then keeps it closed with an empty failure
  list. A failure then reopens it, stamped with the time of that failure, exactly when
  the failures still inside the window, that one included, reach the threshold.
\<close>

theorem timeout_check_closes_breaker:
  assumes op: "is_open cb" and at: "opened_at cb = Some t0"
    and early: "early - t0 < real_of_int (timeout_seconds cb)"
    and due: "real_of_int (timeout_seconds cb) \<le> now - t0"
  shows "check_and_wait early cb
           = Inr (cb, Some (real_of_int (timeout_seconds cb) - (early - t0)))
       \<and> check_and_wait now cb = Inr (cb\<lparr>is_open := False, opened_at := None\<rparr>, None)
       \<and> check_and_wait later (cb\<lparr>is_open := False, opened_at := None\<rparr>)
           = Inr (cb\<lparr>is_open := False, opened_at := None\<rparr>, None)
       \<and> \<not> is_open (record_success (cb\<lparr>is_open := False, opened_at := None\<rparr>))
       \<and> failures (record_success (cb\<lparr>is_open := False, opened_at := None\<rparr>)) = []
       \<and> is_open (record_failure t (cb\<lparr>is_open := False, opened_at := None\<rparr>))
           = (failure_threshold cb
                \<le> int (length (filter (\<lambda>f. t - f < real_of_int (window_seconds cb))
                                 (failures cb @ [t]))))
       \<and> opened_at (record_failure t (cb\<lparr>is_open := False, opened_at := None\<rparr>))
           = (if is_open (record_failure t (cb\<lparr>is_open := False, opened_at := None\<rparr>))
              then Some t else None)"
proof -
  let ?c = "cb\<lparr>is_open := False, opened_at := None\<rparr>"
  have a: "check_and_wait early cb
             = Inr (cb, Some (real_of_int (timeout_seconds cb) - (early - t0)))"
    using op at early by (simp add: check_and_wait_def Let_def)
  have b: "check_and_wait now cb = Inr (?c, None)"
    using op at due by (simp add: check_and_wait_def Let_def)
  have c: "check_and_wait later ?c = Inr (?c, None)"
    by (rule check_and_wait_closed) simp
  have d: "\<not> is_open (record_success ?c) \<and> failures (record_success ?c) = []"
    using record_success_resets [of ?c] by simp
  have e: "is_open (record_failure t ?c)
           = (failure_threshold cb
                \<le> int (length (filter (\<lambda>f. t - f < real_of_int (window_seconds cb))
                                 (failures cb @ [t]))))"
    unfolding record_failure_def Let_def by simp
  have f: "opened_at (record_failure t ?c)
           = (if is_open (record_failure t ?c) then Some t else None)"
    unfolding record_failure_def Let_def by simp
  from a b c d e f show ?thesis by blast
qed

theorem timeout_check_closes_breaker_witness:
  "check_and_wait 10 (record_failures default_breaker [0, 1, 2, 3, 4])
     = Inr (record_failures default_breaker [0, 1, 2, 3, 4], Some 24)
   \<and> check_and_wait 34 (record_failures default_breaker [0, 1, 2, 3, 4])
     = Inr ((record_failures default_breaker [0, 1, 2, 3, 4])
              \<lparr>is_open := False, opened_at := None\<rparr>, None)
   \<and> is_open (record_failure 35 ((record_failures default_breaker [0, 1, 2, 3, 4])
              \<lparr>is_open := False, opened_at := None\<rparr>))"
proof -
  let ?b = "record_failures default_breaker [0, 1, 2, 3, 4]"
  have v: "?b = \<lparr>failure_threshold = 5, timeout_seconds = 30, window_seconds = 60,
                 failures = [0, 1, 2, 3, 4], is_open = True, opened_at = Some 4\<rparr>"
    by (simp add: default_breaker_def new_breaker_def record_failure_def Let_def)
  have h1: "is_open ?b" and h2: "opened_at ?b = Some 4"
    and h3: "10 - 4 < real_of_int (timeout_seconds ?b)"
    and h4: "real_of_int (timeout_seconds ?b) \<le> 34 - 4"
    unfolding v by simp_all
  show ?thesis
    using timeout_check_closes_breaker [OF h1 h2 h3 h4, of 34 35]
    unfolding v by (simp add: record_failure_def Let_def)
qed

text \<open>
  The claim C1 as it is written fails. Five failures at 0..4 s open the default breaker
  at 4 s. At 34 s two callers check one after the other: both are let through without a
  wait, and the second finds the breaker closed, neither waiting for the first nor
  seeing it open. A failure of the first at 100 s leaves the breaker closed.
\<close>

theorem half_open_probe_counterexample:
  "is_open (record_failures default_breaker [0, 1, 2, 3, 4])
   \<and> check_and_wait 34 (record_failures default_breaker [0, 1, 2, 3, 4])
     = Inr (\<lparr>failure_threshold = 5, timeout_seconds = 30, window_seconds = 60,
             failures = [0, 1, 2, 3, 4], is_open = False, opened_at = None\<rparr>, None)
   \<and> check_and_wait 34 \<lparr>failure_threshold = 5, timeout_seconds = 30, window_seconds = 60,
                          failures = [0, 1, 2, 3, 4], is_open = False, opened_at = None\<rparr>
     = Inr (\<lparr>failure_threshold = 5, timeout_seconds = 30, window_seconds = 60,
             failures = [0, 1, 2, 3, 4], is_open = False, opened_at = None\<rparr>, None)
   \<and> \<not> is_open (record_failure 100
          \<lparr>failure_threshold = 5, timeout_seconds = 30, window_seconds = 60,
           failures = [0, 1, 2, 3, 4], is_open = False, opened_at = None\<rparr>)"
  by (simp add: default_breaker_def new_breaker_def record_failure_def check_and_wait_def
        Let_def)

section \<open>Properties of the concurrency gate\<close>




















section \<open>Which failures reach the breaker\<close>

text \<open>
  C8, evaluated on the code. The breaker of the limiter has four recent failures, one
  below the threshold; a call is checked in at 9 s and its task fails at 10 s. Failing
  with a 504, a server-side error, the call leaves the limiter as it was: nothing is
  recorded. Failing with a 503 it is recorded and the breaker opens. Failing with a
  429, a client error, whose text contains ``500'', it is recorded and the breaker
  opens just the same.
\<close>

theorem server_error_test_misses_504:
  "spec_is_server_error 504
   \<and> \<not> is_open (record_failures default_breaker [0, 1, 2, 3])
   \<and> execute 9 10 (RaisedException ''Error code: 504 - Gateway Timeout'' :: unit outcome)
         \<lparr>semaphore = 4, circuit_breaker = record_failures default_breaker [0, 1, 2, 3]\<rparr>
       = Some (\<lparr>semaphore = 4,
                 circuit_breaker = record_failures default_breaker [0, 1, 2, 3]\<rparr>,
               Inr (RaisedException ''Error code: 504 - Gateway Timeout''))
   \<and> execute 9 10 (RaisedException ''Error code: 503 - Service Unavailable'' :: unit outcome)
         \<lparr>semaphore = 4, circuit_breaker = record_failures default_breaker [0, 1, 2, 3]\<rparr>
       = Some (\<lparr>semaphore = 4,
                 circuit_breaker = record_failures default_breaker [0, 1, 2, 3, 10]\<rparr>,
               Inr (RaisedException ''Error code: 503 - Service Unavailable''))
   \<and> is_open (record_failures default_breaker [0, 1, 2, 3, 10])
   \<and> \<not> spec_is_server_error 429
   \<and> execute 9 10
         (RaisedException ''Error code: 429 - Rate limit reached: limit 500, used 500''
            :: unit outcome)
         \<lparr>semaphore = 4, circuit_breaker = record_failures default_breaker [0, 1, 2, 3]\<rparr>
       = Some (\<lparr>semaphore = 4,
                 circuit_breaker = record_failures default_breaker [0, 1, 2, 3, 10]\<rparr>,
               Inr (RaisedException
                      ''Error code: 429 - Rate limit reached: limit 500, used 500''))"
  by (simp add: spec_is_server_error_def execute_def check_and_wait_def execute_body_def
        Let_def lower_char_def default_breaker_def new_breaker_def record_failure_def)

section \<open>Properties of the retrying caller\<close>

declare retry_loop.simps [simp del]

lemma retry_loop_never_raises_exception:
  "fst (retry_loop llm max_retries attempt) \<noteq> RaisedException msg"
proof (induction llm max_retries attempt rule: retry_loop.induct)
  case (1 llm max_retries attempt)
  show ?case
  proof (cases "int attempt < max_retries")
    case False
    then show ?thesis by (simp add: retry_loop.simps [of llm max_retries attempt])
  next
    case True
    show ?thesis
    proof (cases "llm attempt")
      case (Returned r)
      then show ?thesis using True by (simp add: retry_loop.simps [of llm max_retries attempt])
    next
      case RaisedBaseException
      then show ?thesis using True by (simp add: retry_loop.simps [of llm max_retries attempt])
    next
      case (RaisedException e)
      then show ?thesis
        using True "1.IH"(1) [OF True RaisedException] "1.IH"(2) [OF True RaisedException]
        by (simp add: retry_loop.simps [of llm max_retries attempt] Let_def)
    qed
  qed
qed

lemma retry_loop_all_fail:
  "(\<And>k. attempt \<le> k \<Longrightarrow> int k < max_retries \<Longrightarrow> \<exists>msg. llm k = RaisedException msg) \<Longrightarrow>
     fst (retry_loop llm max_retries attempt) = Returned None"
proof (induction llm max_retries attempt rule: retry_loop.induct)
  case (1 llm max_retries attempt)
  show ?case
  proof (cases "int attempt < max_retries")
    case False
    then show ?thesis by (simp add: retry_loop.simps [of llm max_retries attempt])
  next
    case True
    then obtain e where e: "llm attempt = RaisedException e" using "1.prems" [of attempt] by auto
    have later: "fst (retry_loop llm max_retries (Suc attempt)) = Returned None"
    proof (cases "int attempt < max_retries - 1")
      case True
      show ?thesis
        by (rule "1.IH"(1) [OF \<open>int attempt < max_retries\<close> e True refl refl])
           (use "1.prems" in auto)
    next
      case False
      show ?thesis
        by (rule "1.IH"(2) [OF \<open>int attempt < max_retries\<close> e False]) (use "1.prems" in auto)
    qed
    show ?thesis using True e later
      by (simp add: retry_loop.simps [of llm max_retries attempt] Let_def)
  qed
qed

text \<open>
  C9. When every one of the \<open>max_retries\<close> attempts fails with an \<^verbatim>\<open>Exception\<close>, the
  caller returns \<^verbatim>\<open>None\<close>. And whatever the attempts do and however many there are, the
  caller never ends by raising an \<^verbatim>\<open>Exception\<close>: the handler keeps each of them.
\<close>

theorem exhausted_retries_return_None:
  assumes "\<forall>k. int k < max_retries \<longrightarrow> (\<exists>msg. llm k = RaisedException msg)"
  shows "fst (call_llm_with_structured_output llm max_retries) = Returned None
       \<and> fst (call_llm_with_structured_output any_llm any_retries) \<noteq> RaisedException msg"
  unfolding call_llm_with_structured_output_def
  using assms retry_loop_all_fail [of 0 max_retries llm]
    retry_loop_never_raises_exception [of any_llm any_retries 0 msg]
  by blast

theorem exhausted_retries_return_None_witness:
  "call_llm_with_structured_output
      (\<lambda>k. RaisedException ''Error code: 429 - rate_limit'' :: unit option outcome) 3
     = (Returned None, [3, 6])"
proof -
  let ?llm = "\<lambda>k::nat. RaisedException ''Error code: 429 - rate_limit'' :: unit option outcome"
  have h: "\<forall>k. int k < 3 \<longrightarrow> (\<exists>msg. ?llm k = RaisedException msg)" by simp
  have a: "fst (call_llm_with_structured_output ?llm 3) = Returned None"
    using exhausted_retries_return_None [OF h] by blast
  have rl: "is_rate_limit ''Error code: 429 - rate_limit''"
    by (simp add: is_rate_limit_def)
  have b: "snd (call_llm_with_structured_output ?llm 3) = [3, 6]"
    unfolding call_llm_with_structured_output_def
    by (simp add: retry_loop.simps [of ?llm 3] rl Let_def)
  from a b show ?thesis by (simp add: prod_eq_iff)
qed

section \<open>Properties of the voting aggregator\<close>

lemma voting_loop_map_filter:
  "voting_loop processor result_factory truthy completions min_successes pos items results =
     results @ List.map_filter
       (\<lambda>(p, item). vote_item processor result_factory truthy completions min_successes p item)
       (enumerate pos items)"
proof (induction items arbitrary: pos results)
  case Nil
  show ?case by (simp add: List.map_filter_simps)
next
  case (Cons item items)
  show ?case
    by (cases "vote_item processor result_factory truthy completions min_successes pos item")
       (simp_all add: Cons.IH List.map_filter_simps)
qed

lemma length_map_filter_le: "length (List.map_filter f xs) \<le> length xs"
  by (induction xs) (simp_all add: List.map_filter_simps split: option.splits)

lemma first_successful_find:
  "first_successful result_factory truthy item attempts =
     (case find (accepted_attempt result_factory truthy item) attempts of
        None \<Rightarrow> None
      | Some attempt \<Rightarrow> map_option (\<lambda>result. result_factory result item) (snd attempt))"
  by (induction result_factory truthy item attempts rule: first_successful.induct)
     (simp_all add: accepted_attempt_def Let_def)

text \<open>
  C4, as the code has it. An item with fewer successes than the quorum yields nothing.
  Otherwise it yields at most one result: what the factory builds from the first
  attempt, in launch order, that reports success, carries a value other than \<^verbatim>\<open>None\<close>
  and whose product is true; with no such attempt it yields nothing. For a list of one
  item the output is that result alone, or empty.
\<close>

theorem item_yields_first_accepted_attempt:
  "vote_item processor result_factory truthy completions min_successes pos item =
     (if success_count (gather_attempts processor pos item completions) < min_successes
      then None
      else (case find (accepted_attempt result_factory truthy item)
                   (gather_attempts processor pos item completions) of
              None \<Rightarrow> None
            | Some attempt \<Rightarrow> map_option (\<lambda>result. result_factory result item) (snd attempt)))
   \<and> process_with_voting [item] processor completions min_successes result_factory truthy =
     (case vote_item processor result_factory truthy completions min_successes 0 item of
        None \<Rightarrow> []
      | Some processed_result \<Rightarrow> [processed_result])"
  by (simp add: vote_item_def Let_def first_successful_find process_with_voting_def
        split: option.splits)

text \<open>
  The claim C4 as it is written fails. The contextualization caller asks for 2
  attempts and a quorum of 2; the model answers both with blanks, so both attempts
  report success with the empty text. The quorum is met and yet the item yields no
  result: the empty product is false and is never appended.
\<close>

theorem quorum_without_result_counterexample:
  "success_count (gather_attempts blank_answers 0 ''Some text.'' 2) = 2
   \<and> process_with_voting [''Some text.''] blank_answers 2 2 create_contextualized_result
        str_truthy = []"
  by (simp add: process_with_voting_def vote_item_def gather_attempts_def success_count_def
        blank_answers_def single_contextualization_attempt_def str_truthy_def strip_def
        is_space_def create_contextualized_result_def Let_def eval_nat_numeral)

text \<open>
  C10. The output is the list of the per-item results in the order of the items,
  each item giving one entry or none, whatever the number of its successful attempts;
  so it is never longer than the input.
\<close>

theorem voting_keeps_order_one_per_item:
  "process_with_voting items processor completions min_successes result_factory truthy =
     List.map_filter
       (\<lambda>(pos, item). vote_item processor result_factory truthy completions min_successes
                        pos item)
       (enumerate 0 items)
   \<and> length (process_with_voting items processor completions min_successes result_factory
               truthy) \<le> length items"
proof -
  have eq: "process_with_voting items processor completions min_successes result_factory truthy =
     List.map_filter
       (\<lambda>(pos, item). vote_item processor result_factory truthy completions min_successes
                        pos item)
       (enumerate 0 items)"
    by (simp add: process_with_voting_def voting_loop_map_filter)
  have "length (List.map_filter
       (\<lambda>(pos, item). vote_item processor result_factory truthy completions min_successes
                        pos item)
       (enumerate 0 items)) \<le> length (enumerate 0 items)"
    by (rule length_map_filter_le)
  with eq show ?thesis by simp
qed

section \<open>Properties of the evidence truncation\<close>

lemma select_walk_take:
  "\<exists>k. select_walk format_func available selected rest = selected @ take k rest"
proof (induction rest arbitrary: selected)
  case Nil
  show ?case by simp
next
  case (Cons evidence rest)
  show ?case
  proof (cases "estimate_token_count (format_func (selected @ [evidence])) \<le> available")
    case True
    from Cons.IH [of "selected @ [evidence]"] obtain k where
      "select_walk format_func available (selected @ [evidence]) rest
         = (selected @ [evidence]) @ take k rest" by blast
    then have "select_walk format_func available selected (evidence # rest)
         = selected @ take (Suc k) (evidence # rest)"
      using True by (simp add: Let_def)
    then show ?thesis by blast
  next
    case False
    then have "select_walk format_func available selected (evidence # rest)
         = selected @ take 0 (evidence # rest)"
      by (simp add: Let_def)
    then show ?thesis by blast
  qed
qed

lemma greedy_selected_take:
  "\<exists>k. greedy_selected format_func available evidence_items = take k (rev evidence_items)"
  using select_walk_take [of format_func available "[]" "rev evidence_items"]
  by (simp add: greedy_selected_def)

lemma length_filter_member_distinct:
  assumes "distinct xs" and "distinct ys" and "set ys \<subseteq> set xs"
  shows "length (filter (\<lambda>e. e \<in> set ys) xs) = length ys"
proof -
  have "length (filter (\<lambda>e. e \<in> set ys) xs) = card {x \<in> set xs. x \<in> set ys}"
    using assms(1) by (simp add: distinct_length_filter Int_def conj_commute)
  also have "{x \<in> set xs. x \<in> set ys} = set ys" using assms(3) by auto
  also have "card (set ys) = length ys" using assms(2) by (simp add: distinct_card)
  finally show ?thesis .
qed

lemma reordered_length_distinct:
  assumes "distinct evidence_items"
  shows "length (filter (\<lambda>e. e \<in> set (greedy_selected format_func available evidence_items))
                   evidence_items)
         = length (greedy_selected format_func available evidence_items)"
proof -
  obtain k where k: "greedy_selected format_func available evidence_items
                       = take k (rev evidence_items)"
    using greedy_selected_take by blast
  have d: "distinct (take k (rev evidence_items))" using assms by simp
  have s: "set (take k (rev evidence_items)) \<subseteq> set evidence_items"
    using set_take_subset [of k "rev evidence_items"] by simp
  show ?thesis
    unfolding k using length_filter_member_distinct [OF assms d s]
    by simp
qed

lemma available_4000: "available_tokens [] [] 4000 = 0"
  by (simp add: available_tokens_def estimate_token_count_def)

lemma available_4001: "available_tokens [] [] 4001 = 1"
  by (simp add: available_tokens_def estimate_token_count_def)

text \<open>
  C5, as the code has it. For a non-empty evidence list: with nothing available
  (\<open>max_tokens\<close> less the prompt overhead less 4000 is at most 0) the first \<open>min(3, n)\<close>
  items are returned; when the walk selects nothing the first \<open>min(3, n)\<close> items are
  forced; when the input has at least 3 items and the items equal to a selected one
  number 1 or 2, as they do whenever the walk selects 1 or 2 items and the input items
  are pairwise distinct, exactly the first 3 items are returned; the result is never
  empty.
\<close>

theorem truncation_floor:
  assumes ne: "evidence_items \<noteq> []"
  shows "(available_tokens system_prompt human_prompt max_tokens \<le> 0 \<longrightarrow>
            truncate_evidence_for_token_limit evidence_items system_prompt human_prompt
                max_tokens format_func
              = take (min 3 (length evidence_items)) evidence_items)
       \<and> (0 < available_tokens system_prompt human_prompt max_tokens
            \<and> greedy_selected format_func
                  (available_tokens system_prompt human_prompt max_tokens) evidence_items = [] \<longrightarrow>
            truncate_evidence_for_token_limit evidence_items system_prompt human_prompt
                max_tokens format_func
              = take (min 3 (length evidence_items)) evidence_items)
       \<and> (0 < available_tokens system_prompt human_prompt max_tokens
            \<and> 3 \<le> length evidence_items
            \<and> 0 < length (filter (\<lambda>e. e \<in> set (greedy_selected format_func
                  (available_tokens system_prompt human_prompt max_tokens) evidence_items))
                  evidence_items)
            \<and> length (filter (\<lambda>e. e \<in> set (greedy_selected format_func
                  (available_tokens system_prompt human_prompt max_tokens) evidence_items))
                  evidence_items) < 3 \<longrightarrow>
            truncate_evidence_for_token_limit evidence_items system_prompt human_prompt
                max_tokens format_func
              = take 3 evidence_items)
       \<and> (0 < available_tokens system_prompt human_prompt max_tokens
            \<and> 3 \<le> length evidence_items \<and> distinct evidence_items
            \<and> 0 < length (greedy_selected format_func
                  (available_tokens system_prompt human_prompt max_tokens) evidence_items)
            \<and> length (greedy_selected format_func
                  (available_tokens system_prompt human_prompt max_tokens) evidence_items) < 3 \<longrightarrow>
            truncate_evidence_for_token_limit evidence_items system_prompt human_prompt
                max_tokens format_func
              = take 3 evidence_items)
       \<and> truncate_evidence_for_token_limit evidence_items system_prompt human_prompt
                max_tokens format_func \<noteq> []"
proof -
  let ?a = "available_tokens system_prompt human_prompt max_tokens"
  let ?sel = "greedy_selected format_func ?a evidence_items"
  let ?res = "filter (\<lambda>e. e \<in> set ?sel) evidence_items"
  let ?T = "truncate_evidence_for_token_limit evidence_items system_prompt human_prompt
                max_tokens format_func"
  have T: "?T = (if ?a \<le> 0 then take (min 3 (length evidence_items)) evidence_items
                 else if length ?res = 0 \<and> length evidence_items > 0
                   then take (min 3 (length evidence_items)) evidence_items
                 else if length ?res < 3 \<and> length evidence_items \<ge> 3
                   then take 3 evidence_items
                 else ?res)"
    using ne by (simp add: truncate_evidence_for_token_limit_def Let_def)
  have pos: "0 < length evidence_items" using ne by simp
  have c1: "?a \<le> 0 \<longrightarrow> ?T = take (min 3 (length evidence_items)) evidence_items"
    by (simp add: T)
  have c2: "0 < ?a \<and> ?sel = [] \<longrightarrow> ?T = take (min 3 (length evidence_items)) evidence_items"
  proof
    assume h: "0 < ?a \<and> ?sel = []"
    then have "?res = []" by simp
    then show "?T = take (min 3 (length evidence_items)) evidence_items"
      using h pos by (simp add: T)
  qed
  have c3: "0 < ?a \<and> 3 \<le> length evidence_items \<and> 0 < length ?res \<and> length ?res < 3
              \<longrightarrow> ?T = take 3 evidence_items"
    by (simp add: T)
  have c4: "0 < ?a \<and> 3 \<le> length evidence_items \<and> distinct evidence_items
              \<and> 0 < length ?sel \<and> length ?sel < 3 \<longrightarrow> ?T = take 3 evidence_items"
  proof
    assume h: "0 < ?a \<and> 3 \<le> length evidence_items \<and> distinct evidence_items
              \<and> 0 < length ?sel \<and> length ?sel < 3"
    then have "length ?res = length ?sel" using reordered_length_distinct by blast
    with h have "0 < ?a \<and> 3 \<le> length evidence_items \<and> 0 < length ?res \<and> length ?res < 3"
      by simp
    with c3 show "?T = take 3 evidence_items" by blast
  qed
  have c5: "?T \<noteq> []"
  proof (cases "?a \<le> 0")
    case True
    then show ?thesis using ne by (simp add: T)
  next
    case False
    then show ?thesis using ne by (auto simp: T)
  qed
  from c1 c2 c3 c4 c5 show ?thesis by blast
qed

theorem truncation_floor_witness:
  "truncate_evidence_for_token_limit [''aaaa'', ''bbbb'', ''cccc'', ''dddd''] [] [] 4000 concat
     = [''aaaa'', ''bbbb'', ''cccc'']
   \<and> truncate_evidence_for_token_limit [''aaaa'', ''bbbb''] [] [] 4001 concat
     = [''aaaa'', ''bbbb'']
   \<and> truncate_evidence_for_token_limit [''cccc'', ''bbbb'', ''dddd'', ''a''] [] [] 4001 concat
     = [''cccc'', ''bbbb'', ''dddd'']"
proof -
  have a: "truncate_evidence_for_token_limit [''aaaa'', ''bbbb'', ''cccc'', ''dddd''] [] [] 4000
             concat = [''aaaa'', ''bbbb'', ''cccc'']"
    using truncation_floor [of "[''aaaa'', ''bbbb'', ''cccc'', ''dddd'']" "[]" "[]" 4000 concat,
            THEN conjunct1]
    by (simp add: available_4000)
  have sb: "greedy_selected concat 1 [''aaaa'', ''bbbb''] = []"
    by (simp add: greedy_selected_def estimate_token_count_def Let_def)
  have b: "truncate_evidence_for_token_limit [''aaaa'', ''bbbb''] [] [] 4001 concat
             = [''aaaa'', ''bbbb'']"
    using truncation_floor [of "[''aaaa'', ''bbbb'']" "[]" "[]" 4001 concat,
            THEN conjunct2, THEN conjunct1]
    by (simp add: available_4001 sb)
  have sc: "greedy_selected concat 1 [''cccc'', ''bbbb'', ''dddd'', ''a''] = [''a'']"
    by (simp add: greedy_selected_def estimate_token_count_def Let_def)
  have c: "truncate_evidence_for_token_limit [''cccc'', ''bbbb'', ''dddd'', ''a''] [] [] 4001
             concat = [''cccc'', ''bbbb'', ''dddd'']"
    using truncation_floor [of "[''cccc'', ''bbbb'', ''dddd'', ''a'']" "[]" "[]" 4001 concat,
            THEN conjunct2, THEN conjunct2, THEN conjunct2, THEN conjunct1]
    by (simp add: available_4001 sc)
  have c': "truncate_evidence_for_token_limit [''cccc'', ''bbbb'', ''dddd'', ''a''] [] [] 4001
             concat = take 3 [''cccc'', ''bbbb'', ''dddd'', ''a'']"
    using truncation_floor [of "[''cccc'', ''bbbb'', ''dddd'', ''a'']" "[]" "[]" 4001 concat,
            THEN conjunct2, THEN conjunct2, THEN conjunct1]
    by (simp add: available_4001 sc)
  from a b c c' show ?thesis by blast
qed

text \<open>
  The claim C5 as it is written fails where evidence repeats. With one token available
  the walk selects a single item, the input has five, and the result is not the first
  three items: every input item equal to the selected one is kept, four in all.
\<close>

theorem duplicate_evidence_counterexample:
  "greedy_selected concat (available_tokens [] [] 4001) [''a'', ''a'', ''a'', ''bbbb'', ''a'']
     = [''a'']
   \<and> truncate_evidence_for_token_limit [''a'', ''a'', ''a'', ''bbbb'', ''a''] [] [] 4001 concat
     = [''a'', ''a'', ''a'', ''a'']
   \<and> take 3 [''a'', ''a'', ''a'', ''bbbb'', ''a''] = [''a'', ''a'', ''a'']"
proof -
  have s: "greedy_selected concat 1 [''a'', ''a'', ''a'', ''bbbb'', ''a''] = [''a'']"
    by (simp add: greedy_selected_def estimate_token_count_def Let_def)
  show ?thesis
    by (simp add: truncate_evidence_for_token_limit_def available_4001 s Let_def)
qed

section \<open>Properties of the search decision loop\<close>

declare search_loop.simps [simp del]

lemma node_iteration_update:
  "update_iteration_count (search_decision_node max_iterations response state) =
     (if goto (search_decision_node max_iterations response state) = generate_search_query
      then Some (iteration_count state + 1) else None)"
  by (simp add: search_decision_node_def Let_def split: option.splits)

lemma node_goto_cases:
  "goto (search_decision_node max_iterations response state) \<noteq> evaluate_evidence \<Longrightarrow>
     goto (search_decision_node max_iterations response state) = generate_search_query
     \<and> iteration_count state < max_iterations"
  by (cases "goto (search_decision_node max_iterations response state)")
     (auto simp: search_decision_node_def Let_def split: if_splits option.splits)

lemma next_state_count:
  "goto cmd = generate_search_query \<Longrightarrow>
   update_iteration_count cmd = Some (iteration_count state + 1) \<Longrightarrow>
     iteration_count ((apply_update cmd state)\<lparr>evidence := evs\<rparr>) = iteration_count state + 1"
  by (simp add: apply_update_def Let_def split: option.splits)

lemma search_loop_done:
  "goto (search_decision_node m (rs t) s) = evaluate_evidence \<Longrightarrow>
     search_loop m rs g t s = [(s, search_decision_node m (rs t) s)]"
  by (simp add: search_loop.simps [of m rs g t s])

lemma search_loop_continue:
  "goto (search_decision_node m (rs t) s) \<noteq> evaluate_evidence \<Longrightarrow>
     search_loop m rs g t s =
       (s, search_decision_node m (rs t) s)
       # search_loop m rs g (Suc t)
           ((apply_update (search_decision_node m (rs t) s) s)\<lparr>evidence := evidence s @ g t\<rparr>)"
  by (simp add: search_loop.simps [of m rs g t s])

lemma search_loop_nonempty: "search_loop m rs g t s \<noteq> []"
  by (cases "goto (search_decision_node m (rs t) s) = evaluate_evidence")
     (simp_all add: search_loop_done search_loop_continue)

lemma search_loop_length:
  "length (search_loop m rs g t s) \<le> nat (m - iteration_count s) + 1"
proof (induction m rs g t s rule: search_loop.induct)
  case (1 m rs g t s)
  let ?cmd = "search_decision_node m (rs t) s"
  show ?case
  proof (cases "goto ?cmd = evaluate_evidence")
    case True
    then show ?thesis by (simp add: search_loop_done)
  next
    case False
    let ?s' = "(apply_update ?cmd s)\<lparr>evidence := evidence s @ g t\<rparr>"
    from node_goto_cases [OF False] have q: "goto ?cmd = generate_search_query"
      and lt: "iteration_count s < m" by blast+
    have cnt: "iteration_count ?s' = iteration_count s + 1"
      using q node_iteration_update [of m "rs t" s] by (intro next_state_count) simp_all
    have "length (search_loop m rs g (Suc t) ?s') \<le> nat (m - iteration_count ?s') + 1"
      by (rule "1.IH" [OF False])
    then show ?thesis using lt cnt by (simp add: search_loop_continue [where m=m and rs=rs and t=t and s=s and g=g, OF False])
  qed
qed

lemma search_loop_gotos:
  "map (goto \<circ> snd) (search_loop m rs g t s) =
     replicate (length (search_loop m rs g t s) - 1) generate_search_query @ [evaluate_evidence]"
proof (induction m rs g t s rule: search_loop.induct)
  case (1 m rs g t s)
  let ?cmd = "search_decision_node m (rs t) s"
  show ?case
  proof (cases "goto ?cmd = evaluate_evidence")
    case True
    then show ?thesis by (simp add: search_loop_done)
  next
    case False
    let ?s' = "(apply_update ?cmd s)\<lparr>evidence := evidence s @ g t\<rparr>"
    from node_goto_cases [OF False] have q: "goto ?cmd = generate_search_query" by blast
    have ne: "search_loop m rs g (Suc t) ?s' \<noteq> []" by (rule search_loop_nonempty)
    then obtain n where n: "length (search_loop m rs g (Suc t) ?s') = Suc n"
      by (cases "search_loop m rs g (Suc t) ?s'") auto
    show ?thesis using "1.IH" [OF False] q n
      by (simp add: search_loop_continue [where m=m and rs=rs and t=t and s=s and g=g, OF False])
  qed
qed

lemma search_loop_counts:
  "map (iteration_count \<circ> fst) (search_loop m rs g t s) =
     map (\<lambda>i. iteration_count s + int i) [0..<length (search_loop m rs g t s)]"
proof (induction m rs g t s rule: search_loop.induct)
  case (1 m rs g t s)
  let ?cmd = "search_decision_node m (rs t) s"
  show ?case
  proof (cases "goto ?cmd = evaluate_evidence")
    case True
    then show ?thesis by (simp add: search_loop_done)
  next
    case False
    let ?s' = "(apply_update ?cmd s)\<lparr>evidence := evidence s @ g t\<rparr>"
    let ?rest = "search_loop m rs g (Suc t) ?s'"
    from node_goto_cases [OF False] have q: "goto ?cmd = generate_search_query" by blast
    have cnt: "iteration_count ?s' = iteration_count s + 1"
      using q node_iteration_update [of m "rs t" s] by (intro next_state_count) simp_all
    have ih: "map (iteration_count \<circ> fst) ?rest
                = map (\<lambda>i. iteration_count s + 1 + int i) [0..<length ?rest]"
      using "1.IH" [OF False] by (simp only: cnt)
    have "map (\<lambda>i. iteration_count s + int i) [0..<Suc (length ?rest)]
            = iteration_count s # map (\<lambda>i. iteration_count s + 1 + int i) [0..<length ?rest]"
      by (simp add: map_upt_Suc del: upt_Suc) 
    then show ?thesis using ih
      by (simp add: search_loop_continue [where m=m and rs=rs and t=t and s=s and g=g, OF False]
            comp_def del: upt_Suc)
  qed
qed

text \<open>
  C6. The loop is a total function: it returns for every input. Started with a
  non-negative iteration count and a non-negative cap, it evaluates the node at most
  \<open>max_iterations + 1\<close> times; every evaluation but the last decides to keep gathering
  and the last one hands off to \<open>evaluate_evidence\<close>; the iteration count seen by
  successive evaluations goes up by one each time. In a single evaluation the command
  sets the iteration count, to one more than it was, exactly when it decides to keep
  gathering, and leaves it alone otherwise.
\<close>

theorem search_loop_reaches_done:
  assumes c0: "0 \<le> iteration_count state" and m0: "0 \<le> max_iterations"
  shows "int (length (search_loop max_iterations responses gathered tick state))
           \<le> max_iterations + 1
       \<and> map (goto \<circ> snd) (search_loop max_iterations responses gathered tick state)
           = replicate (length (search_loop max_iterations responses gathered tick state) - 1)
               generate_search_query @ [evaluate_evidence]
       \<and> map (iteration_count \<circ> fst) (search_loop max_iterations responses gathered tick state)
           = map (\<lambda>i. iteration_count state + int i)
               [0..<length (search_loop max_iterations responses gathered tick state)]
       \<and> update_iteration_count (search_decision_node max_iterations response any_state)
           = (if goto (search_decision_node max_iterations response any_state)
                  = generate_search_query
              then Some (iteration_count any_state + 1) else None)"
proof -
  have "length (search_loop max_iterations responses gathered tick state)
          \<le> nat (max_iterations - iteration_count state) + 1"
    by (rule search_loop_length)
  then have "int (length (search_loop max_iterations responses gathered tick state))
          \<le> max_iterations + 1"
    using c0 m0 by linarith
  then show ?thesis
    using search_loop_gotos [of max_iterations responses gathered tick state]
      search_loop_counts [of max_iterations responses gathered tick state]
      node_iteration_update [of max_iterations response any_state]
    by blast
qed

theorem search_loop_reaches_done_witness:
  "int (length (search_loop 3 (\<lambda>t. Some \<lparr>needs_more_evidence = True, missing_aspects = []\<rparr>)
          (\<lambda>t. []) 0 \<lparr>evidence = [], iteration_count = 0, intermediate_assessment = None\<rparr>))
     \<le> 3 + 1
   \<and> map (goto \<circ> snd)
         (search_loop 3 (\<lambda>t. Some \<lparr>needs_more_evidence = True, missing_aspects = []\<rparr>)
            (\<lambda>t. []) 0 \<lparr>evidence = [], iteration_count = 0, intermediate_assessment = None\<rparr>)
     = [generate_search_query, generate_search_query, generate_search_query, evaluate_evidence]"
proof -
  let ?rs = "\<lambda>t::nat. Some \<lparr>needs_more_evidence = True, missing_aspects = []\<rparr>"
  let ?g = "\<lambda>t::nat. [] :: Evidence list"
  let ?s = "\<lparr>evidence = [], iteration_count = 0, intermediate_assessment = None\<rparr>"
  have len: "length (search_loop 3 ?rs ?g 0 ?s) = 4"
    by (simp add: search_loop.simps search_decision_node_def apply_update_def
          has_authoritative_source_def authoritative_count_def Let_def)
  have h1: "0 \<le> iteration_count ?s" and h2: "(0::int) \<le> 3" by simp_all
  from search_loop_reaches_done [OF h1 h2, of ?rs ?g 0] len show ?thesis
    by (simp add: eval_nat_numeral)
qed

section \<open>The early exits of the search decision\<close>

lemma has_authoritative_iff:
  "has_authoritative_source evs = (0 < authoritative_count evs)"
  by (simp add: has_authoritative_source_def authoritative_count_def list_ex_iff
        filter_empty_conv)

lemma count_three:
  "authoritative_count [evidence_from ''https://www.cdc.gov/flu'',
       evidence_from ''https://example.com/a'', evidence_from ''https://news.example.net/b'']
     = 1"
  by (simp add: authoritative_count_def is_authoritative_def evidence_from_def
        AUTHORITATIVE_DOMAINS_def lower_char_def Let_def)

lemma count_two:
  "authoritative_count [evidence_from ''https://www.who.int/news'',
       evidence_from ''https://www.nasa.gov/x''] = 2"
  by (simp add: authoritative_count_def is_authoritative_def evidence_from_def
        AUTHORITATIVE_DOMAINS_def lower_char_def Let_def)

text \<open>
  C7, as the code has it. With exactly 3 evidence items of which 1 is from an
  allow-listed domain the node exits early to \<open>evaluate_evidence\<close>, whatever the
  iteration count, the cap and the assessment; with exactly 2 items, both allow-listed,
  it exits early as well.
\<close>

theorem early_exit_on_authoritative_evidence:
  assumes "(length (evidence state) = 3 \<and> authoritative_count (evidence state) = 1)
         \<or> (length (evidence state) = 2 \<and> authoritative_count (evidence state) = 2)"
  shows "search_decision_node max_iterations response state
           = \<lparr>goto = evaluate_evidence, update_iteration_count = None,
              update_intermediate_assessment = None\<rparr>"
  using assms by (auto simp: search_decision_node_def Let_def has_authoritative_iff)

theorem early_exit_on_authoritative_evidence_witness:
  "search_decision_node 3 (Some \<lparr>needs_more_evidence = True, missing_aspects = []\<rparr>)
     \<lparr>evidence = [evidence_from ''https://www.cdc.gov/flu'',
                  evidence_from ''https://example.com/a'',
                  evidence_from ''https://news.example.net/b''],
      iteration_count = 0, intermediate_assessment = None\<rparr>
     = \<lparr>goto = evaluate_evidence, update_iteration_count = None,
        update_intermediate_assessment = None\<rparr>
   \<and> search_decision_node 3 (Some \<lparr>needs_more_evidence = True, missing_aspects = []\<rparr>)
     \<lparr>evidence = [evidence_from ''https://www.who.int/news'',
                  evidence_from ''https://www.nasa.gov/x''],
      iteration_count = 0, intermediate_assessment = None\<rparr>
     = \<lparr>goto = evaluate_evidence, update_iteration_count = None,
        update_intermediate_assessment = None\<rparr>"
proof -
  let ?s3 = "\<lparr>evidence = [evidence_from ''https://www.cdc.gov/flu'',
                  evidence_from ''https://example.com/a'',
                  evidence_from ''https://news.example.net/b''],
      iteration_count = 0, intermediate_assessment = None\<rparr>"
  let ?s2 = "\<lparr>evidence = [evidence_from ''https://www.who.int/news'',
                  evidence_from ''https://www.nasa.gov/x''],
      iteration_count = 0, intermediate_assessment = None\<rparr>"
  have h3: "(length (evidence ?s3) = 3 \<and> authoritative_count (evidence ?s3) = 1)
         \<or> (length (evidence ?s3) = 2 \<and> authoritative_count (evidence ?s3) = 2)"
    using count_three by simp
  have h2: "(length (evidence ?s2) = 3 \<and> authoritative_count (evidence ?s2) = 1)
         \<or> (length (evidence ?s2) = 2 \<and> authoritative_count (evidence ?s2) = 2)"
    using count_two by simp
  from early_exit_on_authoritative_evidence [OF h3] early_exit_on_authoritative_evidence [OF h2]
  show ?thesis by blast
qed

text \<open>
  The claim C7 as it is written fails in its first half. Three evidence items, one of
  them from cdc.gov, no iteration done yet out of three, and an assessment that asks
  for more evidence: the node does not go on gathering, it returns the bare command
  of the early exits.
\<close>

theorem three_items_one_authoritative_counterexample:
  "length [evidence_from ''https://www.cdc.gov/flu'', evidence_from ''https://example.com/a'',
           evidence_from ''https://news.example.net/b''] = 3
   \<and> authoritative_count [evidence_from ''https://www.cdc.gov/flu'',
         evidence_from ''https://example.com/a'', evidence_from ''https://news.example.net/b'']
       = 1
   \<and> search_decision_node 3 (Some \<lparr>needs_more_evidence = True, missing_aspects = []\<rparr>)
        \<lparr>evidence = [evidence_from ''https://www.cdc.gov/flu'',
                     evidence_from ''https://example.com/a'',
                     evidence_from ''https://news.example.net/b''],
         iteration_count = 0, intermediate_assessment = None\<rparr>
       = \<lparr>goto = evaluate_evidence, update_iteration_count = None,
          update_intermediate_assessment = None\<rparr>"
proof -
  have "has_authoritative_source [evidence_from ''https://www.cdc.gov/flu'',
         evidence_from ''https://example.com/a'', evidence_from ''https://news.example.net/b'']"
    by (simp only: has_authoritative_iff count_three)
  then show ?thesis
    using count_three by (simp add: search_decision_node_def Let_def)
qed

end
